theory Spec2Isabelle
  imports Main "HOL-Library.Sublist"
begin

section \<open>Strings and the path functions of the host runtime\<close>

text \<open>
  The plugin (\<^verbatim>\<open>src/plugin.ts\<close>) works on JavaScript strings. A string is modelled as
  a \<^typ>\<open>string\<close>, one \<^typ>\<open>char\<close> per code unit. The regular expressions of the source
  look only at single code units, so the width of a unit plays no role.
\<close>

abbreviation slash :: char where "slash \<equiv> CHR ''/''"
abbreviation dquote :: char where "dquote \<equiv> CHR 0x22"
abbreviation squote :: char where "squote \<equiv> CHR 0x27"
abbreviation backslash :: char where "backslash \<equiv> CHR 0x5C"
abbreviation newline :: char where "newline \<equiv> CHR 0x0A"

text \<open>\<^verbatim>\<open>s.split(d)\<close> for a one-character separator: never an empty array.\<close>

fun split_on :: "char \<Rightarrow> string \<Rightarrow> string list" where
  "split_on d [] = [[]]"
| "split_on d (c # cs) =
     (if c = d then [] # split_on d cs
      else (case split_on d cs of
              [] \<Rightarrow> [[c]]
            | x # xs \<Rightarrow> (c # x) # xs))"

text \<open>\<^verbatim>\<open>xs.join(d)\<close>.\<close>

fun join :: "string \<Rightarrow> string list \<Rightarrow> string" where
  "join d [] = []"
| "join d [x] = x"
| "join d (x # y # ys) = x @ d @ join d (y # ys)"

text \<open>
  \<^verbatim>\<open>path.basename(p)\<close> (posix, no extension argument): the scan from the right skips
  trailing separators, then collects code units up to the next separator.
\<close>

definition basename :: "string \<Rightarrow> string" where
  "basename p =
     rev (takeWhile (\<lambda>c. c \<noteq> slash) (dropWhile (\<lambda>c. c = slash) (rev p)))"

text \<open>
  \<^verbatim>\<open>normalizeString\<close> of the posix path module, one step per path segment. The stack
  holds the segments kept so far, the latest first. An empty segment and \<^verbatim>\<open>.\<close> are
  dropped; \<^verbatim>\<open>..\<close> removes the latest segment unless there is none or it is itself
  \<^verbatim>\<open>..\<close>, in which case it is kept only when the path may climb above its root.
\<close>

fun normalize_step :: "bool \<Rightarrow> string list \<Rightarrow> string \<Rightarrow> string list" where
  "normalize_step allowAboveRoot st seg =
     (if seg = [] \<or> seg = ''.'' then st
      else if seg = ''..'' then
        (case st of
           [] \<Rightarrow> if allowAboveRoot then [''..''] else []
         | t # ts \<Rightarrow>
             if t = ''..'' then (if allowAboveRoot then ''..'' # st else st) else ts)
      else seg # st)"

definition normalizeString :: "string \<Rightarrow> bool \<Rightarrow> string" where
  "normalizeString p allowAboveRoot =
     join ''/'' (rev (foldl (normalize_step allowAboveRoot) [] (split_on slash p)))"

text \<open>
  The loop of \<^verbatim>\<open>path.posix.resolve\<close>: the arguments are visited from the last to the
  first and then the working directory, each non-empty one is put in front of the path
  built so far, and the loop stops after the first absolute one.
\<close>

fun resolve_loop :: "string list \<Rightarrow> string \<Rightarrow> string \<times> bool" where
  "resolve_loop [] resolvedPath = (resolvedPath, False)"
| "resolve_loop (p # ps) resolvedPath =
     (if p = [] then resolve_loop ps resolvedPath
      else if hd p = slash then (p @ ''/'' @ resolvedPath, True)
      else resolve_loop ps (p @ ''/'' @ resolvedPath))"

definition path_resolve :: "string \<Rightarrow> string list \<Rightarrow> string" where
  "path_resolve cwd args =
     (case resolve_loop (rev args @ [cwd]) [] of
        (resolvedPath, resolvedAbsolute) \<Rightarrow>
          (let n = normalizeString resolvedPath (\<not> resolvedAbsolute)
           in if resolvedAbsolute then slash # n
              else if n \<noteq> [] then n else ''.''))"

text \<open>\<^verbatim>\<open>s.toLowerCase()\<close> for the code units below 256: the letters A to Z and the
  capital letters from 0xC0 to 0xDE, but for the multiplication sign 0xD7.\<close>

definition lower_char :: "char \<Rightarrow> char" where
  "lower_char c =
     (let n = (of_char c :: nat)
      in if (65 \<le> n \<and> n \<le> 90) \<or> (192 \<le> n \<and> n \<le> 222 \<and> n \<noteq> 215)
         then char_of (n + 32) else c)"

definition toLowerCase :: "string \<Rightarrow> string" where
  "toLowerCase s = map lower_char s"

section \<open>The tagged template \<^verbatim>\<open>dedent\<close>\<close>

text \<open>
  The loader text is written as a template literal tagged with \<^verbatim>\<open>dedent\<close>. The tag
  comes from the package of that name, which is not part of the repository; the
  definitions below follow the function of its release 0.7.0, step by step. The tag
  receives the raw pieces of the template and the interpolated values, and
  \<^enum> joins them, after removing from each raw piece a backslash-newline with the blanks
    after it and the backslash of an escaped backtick;
  \<^enum> splits the joined text into lines, and takes the smallest indentation among the
    lines matching \<^verbatim>\<open>/^(\s+)\S+/\<close>;
  \<^enum> removes that many code units from each line that starts with a space;
  \<^enum> trims the text;
  \<^enum> replaces each backslash followed by \<^verbatim>\<open>n\<close> by a line feed.
  All steps but the first run on the joined text, the interpolated values included.
\<close>

text \<open>The class \<^verbatim>\<open>\s\<close>, for the code units below 256.\<close>

definition is_space :: "char \<Rightarrow> bool" where
  "is_space c \<longleftrightarrow>
     c = CHR 0x09 \<or> c = CHR 0x0A \<or> c = CHR 0x0B \<or> c = CHR 0x0C \<or> c = CHR 0x0D \<or>
     c = CHR 0x20 \<or> c = CHR 0xA0"

fun skip_blanks :: "string \<Rightarrow> string" where
  "skip_blanks [] = []"
| "skip_blanks (c # cs) =
     (if c = CHR '' '' \<or> c = CHR 0x09 then skip_blanks cs else c # cs)"

lemma length_skip_blanks [termination_simp]: "length (skip_blanks s) \<le> length s"
  by (induction s) auto

fun join_suppressed :: "string \<Rightarrow> string" where
  "join_suppressed [] = []"
| "join_suppressed [c] = [c]"
| "join_suppressed (c # d # cs) =
     (if c = backslash \<and> d = newline then join_suppressed (skip_blanks cs)
      else c # join_suppressed (d # cs))"

fun unescape_backticks :: "string \<Rightarrow> string" where
  "unescape_backticks [] = []"
| "unescape_backticks [c] = [c]"
| "unescape_backticks (c # d # cs) =
     (if c = backslash \<and> d = CHR 0x60 then d # unescape_backticks cs
      else c # unescape_backticks (d # cs))"

fun interpolate :: "string list \<Rightarrow> string list \<Rightarrow> string" where
  "interpolate [] vs = []"
| "interpolate (r # rs) [] =
     unescape_backticks (join_suppressed r) @ interpolate rs []"
| "interpolate (r # rs) (v # vs) =
     unescape_backticks (join_suppressed r) @ v @ interpolate rs vs"

definition indent_of :: "string \<Rightarrow> nat option" where
  "indent_of l =
     (if takeWhile is_space l \<noteq> [] \<and> dropWhile is_space l \<noteq> []
      then Some (length (takeWhile is_space l)) else None)"

fun mindent_step :: "nat option \<Rightarrow> string \<Rightarrow> nat option" where
  "mindent_step mindent l =
     (case indent_of l of
        None \<Rightarrow> mindent
      | Some indent \<Rightarrow>
          (case mindent of None \<Rightarrow> Some indent | Some m \<Rightarrow> Some (min m indent)))"

definition strip_line :: "nat \<Rightarrow> string \<Rightarrow> string" where
  "strip_line mindent l =
     (case l of [] \<Rightarrow> l | c # _ \<Rightarrow> if c = CHR '' '' then drop mindent l else l)"

definition trim :: "string \<Rightarrow> string" where
  "trim s = rev (dropWhile is_space (rev (dropWhile is_space s)))"

fun unescape_newlines :: "string \<Rightarrow> string" where
  "unescape_newlines [] = []"
| "unescape_newlines [c] = [c]"
| "unescape_newlines (c # d # cs) =
     (if c = backslash \<and> d = CHR ''n'' then newline # unescape_newlines cs
      else c # unescape_newlines (d # cs))"

definition dedent :: "string list \<Rightarrow> string list \<Rightarrow> string" where
  "dedent raw vs =
     (let result = interpolate raw vs;
          lines = split_on newline result;
          result' = (case foldl mindent_step None lines of
                       None \<Rightarrow> result
                     | Some mindent \<Rightarrow> join [newline] (map (strip_line mindent) lines))
      in unescape_newlines (trim result'))"

section \<open>The capability test registry and the loader script\<close>

text \<open>
  \<^verbatim>\<open>syntaxTests\<close> is an object literal with three properties of its own; only es2018 and
  later have a probe.
\<close>

definition registry :: "(string \<times> string) list" where
  "registry =
     [(''es2018'', ''void ({...{}}, /0/s, async function*(){})''),
      (''es2019'', ''try{} catch{}''),
      (''es2020'', ''0?.$'')]"

text \<open>
  Reading a property that the object literal does not have itself goes on to
  \<^verbatim>\<open>Object.prototype\<close>. These are its property names in the runtime of the build, each
  with the text a template literal prints for the value read through the registry
  object: the source text of a built-in function, and for the accessor
  \<^verbatim>\<open>__proto__\<close> the text of the prototype object.
\<close>

definition object_prototype :: "(string \<times> string) list" where
  "object_prototype =
     [(''constructor'', ''function Object() { [native code] }''),
      (''__defineGetter__'', ''function __defineGetter__() { [native code] }''),
      (''__defineSetter__'', ''function __defineSetter__() { [native code] }''),
      (''hasOwnProperty'', ''function hasOwnProperty() { [native code] }''),
      (''__lookupGetter__'', ''function __lookupGetter__() { [native code] }''),
      (''__lookupSetter__'', ''function __lookupSetter__() { [native code] }''),
      (''isPrototypeOf'', ''function isPrototypeOf() { [native code] }''),
      (''propertyIsEnumerable'', ''function propertyIsEnumerable() { [native code] }''),
      (''toString'', ''function toString() { [native code] }''),
      (''valueOf'', ''function valueOf() { [native code] }''),
      (''__proto__'', ''[object Object]''),
      (''toLocaleString'', ''function toLocaleString() { [native code] }'')]"

text \<open>What \<^verbatim>\<open>syntaxTests[target]\<close> reads: a registered probe, an inherited value (kept as the
  text it prints), or \<^verbatim>\<open>undefined\<close>.\<close>

datatype lookup = Probe string | Inherited string | Undefined

definition syntaxTests :: "string \<Rightarrow> lookup" where
  "syntaxTests target =
     (case map_of registry target of
        Some probe \<Rightarrow> Probe probe
      | None \<Rightarrow>
          (case map_of object_prototype target of
             Some printed \<Rightarrow> Inherited printed
           | None \<Rightarrow> Undefined))"

text \<open>What a template literal prints for the value read.\<close>

definition interpolated :: "lookup \<Rightarrow> string" where
  "interpolated v =
     (case v of Probe s \<Rightarrow> s | Inherited s \<Rightarrow> s | Undefined \<Rightarrow> ''undefined'')"

definition moduleTest :: string where
  "moduleTest = ''script.noModule.$''"

text \<open>The five raw pieces of the template of \<^verbatim>\<open>createScriptFactory\<close>, with their line
  breaks and indentation as in the source.\<close>

definition loader_raw :: "string list" where
  "loader_raw =
     [''\<newline>    <script>\<newline>      (function() {\<newline>        var script = document.createElement('script')\<newline>        try {\<newline>          '',
      ''\<newline>          eval('' @ [squote],
      squote # '')\<newline>          script.type = 'module'\<newline>          script.src = '' @ [squote],
      squote # ''\<newline>        } catch(e) {\<newline>          script.src = '' @ [squote],
      squote # ''\<newline>        }\<newline>        document.head.appendChild(script)\<newline>      })()\<newline>    </script>\<newline>  '']"

definition createScriptFactory :: "string \<Rightarrow> string \<Rightarrow> string \<Rightarrow> string" where
  "createScriptFactory target modernBundleId legacyBundleId =
     (let syntaxTest = syntaxTests target
      in dedent loader_raw
           [moduleTest, interpolated syntaxTest, modernBundleId, legacyBundleId])"

text \<open>The text the template denotes once its indentation is gone.\<close>

definition loader_text :: "string \<Rightarrow> string \<Rightarrow> string \<Rightarrow> string" where
  "loader_text probe modernBundleId legacyBundleId =
     ''<script>\<newline>  (function() {\<newline>    var script = document.createElement('script')\<newline>    try {\<newline>      script.noModule.$\<newline>      eval('' @ [squote] @ probe @
     squote # '')\<newline>      script.type = 'module'\<newline>      script.src = '' @ [squote] @ modernBundleId @
     squote # ''\<newline>    } catch(e) {\<newline>      script.src = '' @ [squote] @ legacyBundleId @
     squote # ''\<newline>    }\<newline>    document.head.appendChild(script)\<newline>  })()\<newline></script>''"

text \<open>The lines of the template once the values are written into it, before the
  indentation is removed.\<close>

definition loader_lines :: "string \<Rightarrow> string \<Rightarrow> string \<Rightarrow> string list" where
  "loader_lines p m l =
     [[],
      ''    <script>'',
      ''      (function() {'',
      ''        var script = document.createElement('script')'',
      ''        try {'',
      ''          script.noModule.$'',
      ''          eval('' @ [squote] @ p @ squote # '')'',
      ''          script.type = 'module'' @ [squote],
      ''          script.src = '' @ [squote] @ m @ [squote],
      ''        } catch(e) {'',
      ''          script.src = '' @ [squote] @ l @ [squote],
      ''        }'',
      ''        document.head.appendChild(script)'',
      ''      })()'',
      ''    </script>'',
      ''  '']"

text \<open>A value that stays on its line and that the last step of \<^verbatim>\<open>dedent\<close> leaves alone: it
  has no line feed and no backslash followed by \<^verbatim>\<open>n\<close>.\<close>

fun escaped_newline_free :: "string \<Rightarrow> bool" where
  "escaped_newline_free (c # d # cs) \<longleftrightarrow>
     \<not> (c = backslash \<and> d = CHR ''n'') \<and> escaped_newline_free (d # cs)"
| "escaped_newline_free cs \<longleftrightarrow> True"

definition inline_value :: "string \<Rightarrow> bool" where
  "inline_value v \<longleftrightarrow> newline \<notin> set v \<and> escaped_newline_free v"

section \<open>The build output and its collaborators\<close>

datatype kind = chunk | asset

text \<open>
  An entry of the output bundle (\<^verbatim>\<open>OutputChunk | OutputAsset\<close>, and \<^verbatim>\<open>ViteAsset\<close>).
  \<^verbatim>\<open>isEntry\<close> is missing on an asset, which reads as false.
\<close>

record OutputChunk =
  type :: kind
  fileName :: string
  code :: string
  map_opt :: "string option"
  isEntry :: bool

datatype error = Error string | TypeError

record BuildConfig =
  root :: string
  outDir :: string
  assetsDir :: string
  sourcemap :: bool
  minify :: bool
  "write" :: bool
  esbuildTarget :: string

text \<open>
  The collaborators of \<^verbatim>\<open>createLegacyChunk\<close>, taken as parameters: the working directory
  that \<^verbatim>\<open>path.resolve\<close> reads, \<^verbatim>\<open>babel.transformAsync\<close> (code and input source map
  to a rejection, \<^verbatim>\<open>null\<close> or the transformed code and map), and the nested
  \<^verbatim>\<open>rollup\<close> build with \<^verbatim>\<open>bundle.generate\<close> (input path, transformed code and map,
  whether to minify, to a rejection or the generated code and map).
\<close>

record host =
  cwd :: string
  transformAsync :: "string \<Rightarrow> string option \<Rightarrow> error + (string \<times> string option) option"
  generate :: "string \<Rightarrow> string \<times> string option \<Rightarrow> bool \<Rightarrow> error + string \<times> string option"

section \<open>The legacy bundle synthesizer\<close>

text \<open>\<^verbatim>\<open>fileName.replace(/\.js$/, '.legacy.js')\<close>: the pattern matches at the end of the
  name only.\<close>

definition replace_js_suffix :: "string \<Rightarrow> string" where
  "replace_js_suffix name =
     (if suffix ''.js'' name then take (length name - 3) name @ ''.legacy.js'' else name)"

definition legacyPath :: "host \<Rightarrow> BuildConfig \<Rightarrow> OutputChunk \<Rightarrow> string" where
  "legacyPath h viteConfig entry =
     path_resolve (cwd h)
       [root viteConfig, outDir viteConfig, assetsDir viteConfig,
        replace_js_suffix (fileName entry)]"

text \<open>
  \<^verbatim>\<open>createLegacyChunk\<close>. The first argument is \<^verbatim>\<open>undefined\<close> when the bundle has no entry
  chunk, and reading its \<^verbatim>\<open>code\<close> then throws. The nested build is given
  \<^verbatim>\<open>file: legacyPath\<close>, and rollup names the chunk of such a build by the base name of
  that file.
\<close>

definition createLegacyChunk :: "host \<Rightarrow> OutputChunk option \<Rightarrow> BuildConfig \<Rightarrow> error + OutputChunk" where
  "createLegacyChunk h mainChunk viteConfig =
     (case mainChunk of
        None \<Rightarrow> Inl TypeError
      | Some entry \<Rightarrow>
          (case transformAsync h (code entry) (map_opt entry) of
             Inl e \<Rightarrow> Inl e
           | Inr None \<Rightarrow> Inl (Error ''[vite-plugin-legacy] Failed to transform modern bundle'')
           | Inr (Some transformed) \<Rightarrow>
               (case generate h (legacyPath h viteConfig entry) transformed (minify viteConfig) of
                  Inl e \<Rightarrow> Inl e
                | Inr (c, m) \<Rightarrow>
                    Inr \<lparr>type = chunk,
                         fileName = basename (legacyPath h viteConfig entry),
                         code = c, map_opt = m, isEntry = True\<rparr>)))"

section \<open>The build output splicer\<close>

definition tag_open :: string where
  \<open>tag_open = ''<script type="module" src="''\<close>

definition tag_close :: string where
  \<open>tag_close = ''"></script>''\<close>

text \<open>The text of a module script tag for a source, in the one shape the pattern
  accepts.\<close>

definition module_script_tag :: "string \<Rightarrow> string" where
  "module_script_tag moduleId = tag_open @ moduleId @ tag_close"

text \<open>
  One attempt of \<^verbatim>\<open>/<script type="module" src="([^"]+)"><\/script>/\<close> at the start of
  a text: the captured group and the text after the match. The group takes every code
  unit up to the next double quote; giving some back cannot help, since a double quote
  must follow it.
\<close>

definition match_tag :: "string \<Rightarrow> (string \<times> string) option" where
  "match_tag s =
     (if prefix tag_open s then
        (let r = drop (length tag_open) s;
             moduleId = takeWhile (\<lambda>c. c \<noteq> dquote) r;
             r' = dropWhile (\<lambda>c. c \<noteq> dquote) r
         in if moduleId \<noteq> [] \<and> prefix tag_close r'
            then Some (moduleId, drop (length tag_close) r') else None)
      else None)"

lemma match_tag_shorter:
  "match_tag s = Some (moduleId, rest) \<Longrightarrow> length rest < length s"
proof -
  assume a: "match_tag s = Some (moduleId, rest)"
  let ?r = "drop (length tag_open) s"
  from a have p: "prefix tag_open s"
    by (simp add: match_tag_def split: if_splits)
  with a have r: "rest = drop (length tag_close) (dropWhile (\<lambda>c. c \<noteq> dquote) ?r)"
    by (simp add: match_tag_def Let_def split: if_splits)
  from p have "length tag_open \<le> length s"
    by (rule prefix_length_le)
  moreover have "length tag_open = 27"
    by (simp add: tag_open_def)
  ultimately have "length ?r < length s"
    by simp
  moreover have "length (dropWhile (\<lambda>c. c \<noteq> dquote) ?r) \<le> length ?r"
    by (rule length_dropWhile_le)
  then have "length rest \<le> length ?r"
    unfolding r by simp
  ultimately show ?thesis
    by simp
qed

text \<open>
  \<^verbatim>\<open>content.replace(re, f)\<close> with the global flag: the text is scanned from the left; at
  a match the callback's result is emitted and the scan goes on after the match,
  elsewhere one code unit is copied. The callback receives the matched text and the
  group.
\<close>

function replace_tags :: "(string \<Rightarrow> string \<Rightarrow> string) \<Rightarrow> string \<Rightarrow> string" where
  "replace_tags f [] = []"
| "replace_tags f (c # cs) =
     (case match_tag (c # cs) of
        None \<Rightarrow> c # replace_tags f cs
      | Some (moduleId, rest) \<Rightarrow>
          f (tag_open @ moduleId @ tag_close) moduleId @ replace_tags f rest)"
  by pat_completeness auto
termination
  by (relation "measure (\<lambda>(f, s). length s)") (auto dest: match_tag_shorter)

text \<open>What \<^verbatim>\<open>generateBundle\<close> leaves in the closures of the two accessors.\<close>

record splice =
  mainChunk :: OutputChunk
  legacyAssets :: "OutputChunk list"

text \<open>
  \<^verbatim>\<open>builds[0]\<close>: the two properties vite assigns after the bundle is generated, and the
  accessors once \<^verbatim>\<open>generateBundle\<close> has defined them. A property never assigned is
  \<^verbatim>\<open>undefined\<close>.
\<close>

record Build =
  html :: "string option"
  assets :: "OutputChunk list option"
  accessors :: "splice option"

definition getLoader :: "BuildConfig \<Rightarrow> string \<Rightarrow> string \<Rightarrow> string" where
  "getLoader viteConfig = createScriptFactory (toLowerCase (esbuildTarget viteConfig))"

text \<open>
  \<^verbatim>\<open>configureBuild\<close>, on the names of the input plugins: nothing is registered for a
  build that is not written.
\<close>

definition configureBuild :: "BuildConfig \<Rightarrow> string list \<Rightarrow> string list" where
  "configureBuild viteConfig inputPlugins =
     (if \<not> write viteConfig then inputPlugins
      else inputPlugins @ [''vite-legacy:setup''])"

text \<open>
  \<^verbatim>\<open>generateBundle\<close>: a rejection of \<^verbatim>\<open>createLegacyChunk\<close> rejects the hook before the
  accessors are defined. When the bundle has no entry chunk that call has failed
  already.
\<close>

definition generateBundle :: "host \<Rightarrow> BuildConfig \<Rightarrow> OutputChunk list \<Rightarrow> Build \<Rightarrow> error + Build" where
  "generateBundle h viteConfig bundle b =
     (let found = find (\<lambda>a. type a = chunk \<and> isEntry a) bundle
      in case createLegacyChunk h found viteConfig of
           Inl e \<Rightarrow> Inl e
         | Inr legacy \<Rightarrow>
             (case found of
                None \<Rightarrow> Inl TypeError
              | Some entry \<Rightarrow>
                  Inr (b\<lparr>accessors := Some \<lparr>mainChunk = entry, legacyAssets = [legacy]\<rparr>\<rparr>)))"

text \<open>The callback of the \<^verbatim>\<open>html\<close> setter. The array \<^verbatim>\<open>legacyAssets\<close> in its closure always
  has the one element that \<^verbatim>\<open>generateBundle\<close> put there.\<close>

definition rewrite_tag :: "host \<Rightarrow> BuildConfig \<Rightarrow> splice \<Rightarrow> string \<Rightarrow> string \<Rightarrow> string" where
  "rewrite_tag h viteConfig sp match moduleId =
     (if basename moduleId = fileName (mainChunk sp)
      then getLoader viteConfig moduleId
             (path_resolve (cwd h) [moduleId, ''..'', fileName (legacyAssets sp ! 0)])
      else match)"

text \<open>The setters: plain assignments until the accessors are defined.\<close>

definition html_override :: "host \<Rightarrow> BuildConfig \<Rightarrow> splice \<Rightarrow> string \<Rightarrow> string" where
  "html_override h viteConfig sp content = replace_tags (rewrite_tag h viteConfig sp) content"

definition set_html :: "host \<Rightarrow> BuildConfig \<Rightarrow> Build \<Rightarrow> string \<Rightarrow> Build" where
  "set_html h viteConfig b content =
     (case accessors b of
        None \<Rightarrow> b\<lparr>html := Some content\<rparr>
      | Some sp \<Rightarrow> b\<lparr>html := Some (html_override h viteConfig sp content)\<rparr>)"

definition set_assets :: "Build \<Rightarrow> OutputChunk list \<Rightarrow> Build" where
  "set_assets b modernAssets =
     (case accessors b of
        None \<Rightarrow> b\<lparr>assets := Some modernAssets\<rparr>
      | Some sp \<Rightarrow> b\<lparr>assets := Some (modernAssets @ legacyAssets sp)\<rparr>)"

section \<open>The loader at run time\<close>

text \<open>
  What the loader reads of the browser: the \<^verbatim>\<open>noModule\<close> property of a fresh script
  element, missing in a browser without module scripts, and the texts that its
  \<^verbatim>\<open>eval\<close> evaluates without throwing.
\<close>

record browser =
  noModule :: "bool option"
  accepts :: "string \<Rightarrow> bool"


record script_element =
  script_type :: "string option"
  src :: "string option"

























section \<open>File names\<close>

text \<open>A name that is one path segment: not empty, without separator, and not a dot
  segment.\<close>

definition plain_name :: "string \<Rightarrow> bool" where
  "plain_name n \<longleftrightarrow> n \<noteq> [] \<and> slash \<notin> set n \<and> n \<noteq> ''.'' \<and> n \<noteq> ''..''"

text \<open>
  Following the specification: the file name with \<^verbatim>\<open>.legacy\<close> inserted before its
  final extension, which starts at the last dot.
\<close>

definition insert_legacy_marker :: "string \<Rightarrow> string" where
  "insert_legacy_marker name =
     (if CHR ''.'' \<in> set name then
        (let ext = rev (takeWhile (\<lambda>c. c \<noteq> CHR ''.'') (rev name))
         in take (length name - length ext - 1) name @ ''.legacy.'' @ ext)
      else name @ ''.legacy'')"

section \<open>A sample build\<close>

text \<open>A project whose engines return their input, used to run the definitions.\<close>

definition demo_config :: BuildConfig where
  "demo_config = \<lparr>root = ''/proj'', outDir = ''dist'', assetsDir = ''_assets'',
     sourcemap = False, minify = False, write = True, esbuildTarget = ''ES2019''\<rparr>"

definition demo_host :: host where
  "demo_host = \<lparr>cwd = ''/proj'',
     transformAsync = (\<lambda>c m. Inr (Some (c, m))),
     generate = (\<lambda>p t mn. Inr t)\<rparr>"

definition failing_host :: host where
  "failing_host = \<lparr>cwd = ''/proj'',
     transformAsync = (\<lambda>c m. Inr None),
     generate = (\<lambda>p t mn. Inr t)\<rparr>"

definition demo_chunk :: "string \<Rightarrow> OutputChunk" where
  "demo_chunk name = \<lparr>type = chunk, fileName = name, code = ''import(1)'',
     map_opt = None, isEntry = True\<rparr>"

definition demo_legacy :: "string \<Rightarrow> OutputChunk" where
  "demo_legacy name = \<lparr>type = chunk, fileName = name, code = ''import(1)'',
     map_opt = None, isEntry = True\<rparr>"

definition demo_build :: Build where
  "demo_build = \<lparr>html = None, assets = None, accessors = None\<rparr>"

text \<open>The sample build after the hook has run for the entry chunk \<^verbatim>\<open>main.a1b2.js\<close>.\<close>

definition demo_spliced :: Build where
  "demo_spliced = demo_build\<lparr>accessors :=
     Some \<lparr>mainChunk = demo_chunk ''main.a1b2.js'',
           legacyAssets = [demo_legacy ''main.a1b2.legacy.js'']\<rparr>\<rparr>"

text \<open>Four tags that refer to the entry chunk in another shape: a further attribute,
  the source first, single quotes, a body.\<close>

definition tag_crossorigin :: string where
  \<open>tag_crossorigin = ''<script type="module" crossorigin src="/assets/main.a1b2.js"></script>''\<close>





section \<open>Properties of the splicer and the synthesizer\<close>

lemma find_first:
  "\<forall>a \<in> set pre. \<not> P a \<Longrightarrow> P c \<Longrightarrow> find P (pre @ c # post) = Some c"
  by (induction pre) auto

lemma find_none: "\<forall>a \<in> set xs. \<not> P a \<Longrightarrow> find P xs = None"
  by (induction xs) auto

lemma generateBundle_demo:
  "generateBundle demo_host demo_config
     [demo_chunk ''vendor.js''\<lparr>isEntry := False\<rparr>, demo_chunk ''main.a1b2.js''] demo_build =
   Inr (demo_build\<lparr>accessors :=
          Some \<lparr>mainChunk = demo_chunk ''main.a1b2.js'',
                legacyAssets = [demo_legacy ''main.a1b2.legacy.js'']\<rparr>\<rparr>)"
  by code_simp

text \<open>
  C8. The chunk given to the synthesizer is the first element of the bundle, in its
  enumeration order, that has type chunk and is flagged as entry; later entry chunks
  are not looked at. When the bundle has no such element, the hook fails with a type
  error and defines no accessor.
\<close>

theorem first_entry_chunk_is_used:
  "((\<forall>a \<in> set pre. \<not> (type a = chunk \<and> isEntry a)) \<and> type c = chunk \<and> isEntry c \<longrightarrow>
      generateBundle h viteConfig (pre @ c # post) b =
        (case createLegacyChunk h (Some c) viteConfig of
           Inl e \<Rightarrow> Inl e
         | Inr legacy \<Rightarrow>
             Inr (b\<lparr>accessors := Some \<lparr>mainChunk = c, legacyAssets = [legacy]\<rparr>\<rparr>))) \<and>
   ((\<forall>a \<in> set bundle. \<not> (type a = chunk \<and> isEntry a)) \<longrightarrow>
      generateBundle h viteConfig bundle b =
        Inl TypeError)"
  by (auto simp: generateBundle_def find_first find_none createLegacyChunk_def
           split: sum.splits)

text \<open>
  A bundle with an asset that carries the entry flag, the entry chunk and a second entry
  chunk: the first chunk is used. A bundle with the asset alone: the hook fails.
\<close>

theorem first_entry_chunk_is_used_witness:
  "generateBundle demo_host demo_config
     ([demo_chunk ''style.css''\<lparr>type := asset\<rparr>] @ demo_chunk ''main.js'' # [demo_chunk ''other.js''])
     demo_build =
     Inr (demo_build\<lparr>accessors :=
            Some \<lparr>mainChunk = demo_chunk ''main.js'',
                  legacyAssets = [demo_legacy ''main.legacy.js'']\<rparr>\<rparr>) \<and>
   generateBundle demo_host demo_config [demo_chunk ''style.css''\<lparr>type := asset\<rparr>] demo_build =
     Inl TypeError"
proof -
  have c: "createLegacyChunk demo_host (Some (demo_chunk ''main.js'')) demo_config =
             Inr (demo_legacy ''main.legacy.js'')"
    by code_simp
  have p: "\<forall>a \<in> set [demo_chunk ''style.css''\<lparr>type := asset\<rparr>]. \<not> (type a = chunk \<and> isEntry a)"
    by simp
  have e: "type (demo_chunk ''main.js'') = chunk \<and> isEntry (demo_chunk ''main.js'')"
    by (simp add: demo_chunk_def)
  from first_entry_chunk_is_used
         [of "[demo_chunk ''style.css''\<lparr>type := asset\<rparr>]" "demo_chunk ''main.js''"
             demo_host demo_config "[demo_chunk ''other.js'']" demo_build
             "[demo_chunk ''style.css''\<lparr>type := asset\<rparr>]"]
       p e c
  show ?thesis
    by simp
qed

text \<open>
  C6. When the transform engine returns no result for the entry chunk,
  \<^verbatim>\<open>createLegacyChunk\<close> throws the error with the plugin's message, and the hook that
  called it for this entry chunk is rejected with the same error: no legacy chunk is
  returned and no accessor is defined.
\<close>

theorem transform_failure_is_fatal:
  assumes "transformAsync h (code entry) (map_opt entry) = Inr None"
  shows "createLegacyChunk h (Some entry) viteConfig =
           Inl (Error ''[vite-plugin-legacy] Failed to transform modern bundle'') \<and>
         (find (\<lambda>a. type a = chunk \<and> isEntry a) bundle = Some entry \<longrightarrow>
            generateBundle h viteConfig bundle b =
              Inl (Error ''[vite-plugin-legacy] Failed to transform modern bundle''))"
  using assms by (simp add: createLegacyChunk_def generateBundle_def)

theorem transform_failure_is_fatal_witness:
  "transformAsync failing_host (code (demo_chunk ''main.js'')) (map_opt (demo_chunk ''main.js''))
     = Inr None \<and>
   find (\<lambda>a. type a = chunk \<and> isEntry a) [demo_chunk ''main.js''] = Some (demo_chunk ''main.js'') \<and>
   generateBundle failing_host demo_config [demo_chunk ''main.js''] demo_build =
     Inl (Error ''[vite-plugin-legacy] Failed to transform modern bundle'')"
proof -
  have a: "transformAsync failing_host (code (demo_chunk ''main.js''))
             (map_opt (demo_chunk ''main.js'')) = Inr None"
    by (simp add: failing_host_def)
  have f: "find (\<lambda>a. type a = chunk \<and> isEntry a) [demo_chunk ''main.js'']
             = Some (demo_chunk ''main.js'')"
    by (simp add: demo_chunk_def)
  from transform_failure_is_fatal [OF a, of demo_config "[demo_chunk ''main.js'']" demo_build] a f
  show ?thesis
    by simp
qed

lemma generateBundle_Inr:
  assumes "generateBundle h viteConfig bundle b = Inr b'"
  shows "\<exists>entry legacy.
           createLegacyChunk h (find (\<lambda>a. type a = chunk \<and> isEntry a) bundle) viteConfig
             = Inr legacy \<and>
           find (\<lambda>a. type a = chunk \<and> isEntry a) bundle = Some entry \<and>
           b' = b\<lparr>accessors := Some \<lparr>mainChunk = entry, legacyAssets = [legacy]\<rparr>\<rparr>"
  using assms
  by (auto simp: generateBundle_def Let_def split: sum.splits option.splits)

text \<open>
  C3. Once the hook has succeeded, assigning an asset list to the build stores that list
  followed by the legacy chunk the synthesizer returned: one element more, the assigned
  assets first, each at its position and as it was.
\<close>

theorem assets_override_appends_legacy:
  assumes "generateBundle h viteConfig bundle b = Inr b'"
  shows "\<exists>legacy final.
           createLegacyChunk h (find (\<lambda>a. type a = chunk \<and> isEntry a) bundle) viteConfig
             = Inr legacy \<and>
           assets (set_assets b' modernAssets) = Some final \<and>
           final = modernAssets @ [legacy] \<and>
           length final = length modernAssets + 1 \<and>
           take (length modernAssets) final = modernAssets \<and>
           (\<forall>i < length modernAssets. final ! i = modernAssets ! i)"
proof -
  from generateBundle_Inr [OF assms] obtain entry legacy where
    c: "createLegacyChunk h (find (\<lambda>a. type a = chunk \<and> isEntry a) bundle) viteConfig
          = Inr legacy" and
    b': "b' = b\<lparr>accessors := Some \<lparr>mainChunk = entry, legacyAssets = [legacy]\<rparr>\<rparr>"
    by blast
  have "assets (set_assets b' modernAssets) = Some (modernAssets @ [legacy])"
    by (simp add: set_assets_def b')
  with c show ?thesis
    by (simp add: nth_append)
qed

theorem assets_override_appends_legacy_witness:
  "assets (set_assets
     (demo_build\<lparr>accessors :=
        Some \<lparr>mainChunk = demo_chunk ''main.a1b2.js'',
              legacyAssets = [demo_legacy ''main.a1b2.legacy.js'']\<rparr>\<rparr>)
     [demo_chunk ''main.a1b2.js'', demo_chunk ''style.css''\<lparr>type := asset\<rparr>]) =
   Some [demo_chunk ''main.a1b2.js'', demo_chunk ''style.css''\<lparr>type := asset\<rparr>,
         demo_legacy ''main.a1b2.legacy.js'']"
proof -
  have c: "createLegacyChunk demo_host
             (find (\<lambda>a. type a = chunk \<and> isEntry a)
                [demo_chunk ''vendor.js''\<lparr>isEntry := False\<rparr>, demo_chunk ''main.a1b2.js''])
             demo_config = Inr (demo_legacy ''main.a1b2.legacy.js'')"
    by code_simp
  from assets_override_appends_legacy [OF generateBundle_demo,
         of "[demo_chunk ''main.a1b2.js'', demo_chunk ''style.css''\<lparr>type := asset\<rparr>]"] c
  show ?thesis
    by auto
qed

section \<open>Properties of the path functions\<close>

lemma split_on_nonempty: "split_on d s \<noteq> []"
  by (induction s) (auto split: list.splits)

lemma split_on_append_sep: "split_on d (a @ d # r) = split_on d a @ split_on d r"
proof (induction a)
  case Nil
  show ?case by simp
next
  case (Cons c a)
  obtain x xs where x: "split_on d a = x # xs"
    using split_on_nonempty [of d a] by (cases "split_on d a") auto
  show ?case
    by (simp add: Cons.IH x)
qed

lemma split_on_plain: "d \<notin> set n \<Longrightarrow> split_on d n = [n]"
  by (induction n) auto

lemma resolve_loop_shape:
  "\<exists>q b. resolve_loop ps acc = (q @ acc, b) \<and> (q = [] \<or> last q = slash)"
proof (induction ps arbitrary: acc)
  case Nil
  show ?case
    by (intro exI [of _ "[]"] exI [of _ False]) simp
next
  case (Cons p ps)
  show ?case
  proof (cases "p = []")
    case True
    with Cons [of acc] show ?thesis by simp
  next
    case False
    show ?thesis
    proof (cases "hd p = slash")
      case True
      have "resolve_loop (p # ps) acc = ((p @ ''/'') @ acc, True)"
        using False True by simp
      then show ?thesis
        by (metis last_snoc)
    next
      case h: False
      from Cons [of "p @ ''/'' @ acc"] obtain q b where
        q: "resolve_loop ps (p @ ''/'' @ acc) = (q @ p @ ''/'' @ acc, b)"
        by blast
      have "resolve_loop (p # ps) acc = ((q @ p @ ''/'') @ acc, b)"
        using False h q by simp
      moreover have "last (q @ p @ ''/'') = slash"
        by simp
      ultimately show ?thesis
        by blast
    qed
  qed
qed

lemma join_snoc: "join d (xs @ [n]) = (if xs = [] then n else join d xs @ d @ n)"
  by (induction d xs rule: join.induct) auto

lemma basename_plain_tail:
  assumes "n \<noteq> []" "slash \<notin> set n" "z = [] \<or> last z = slash"
  shows "basename (z @ n) = n"
proof -
  from assms(1) obtain c cs where r: "rev n = c # cs"
    by (cases "rev n") auto
  with assms(2) have c: "c \<noteq> slash"
    by (metis list.set_intros(1) set_rev)
  have d: "dropWhile (\<lambda>c. c = slash) (rev n @ rev z) = rev n @ rev z"
    using r c by simp
  have t: "takeWhile (\<lambda>c. c \<noteq> slash) (rev z) = []"
    using assms(3) by (cases z rule: rev_cases) auto
  have "takeWhile (\<lambda>c. c \<noteq> slash) (rev n @ rev z) =
          rev n @ takeWhile (\<lambda>c. c \<noteq> slash) (rev z)"
    using assms(2) by (intro takeWhile_append2) auto
  then have "takeWhile (\<lambda>c. c \<noteq> slash) (rev n @ rev z) = rev n"
    using t by simp
  with d show ?thesis
    by (simp add: basename_def)
qed

lemma normalize_plain_last:
  assumes "plain_name n" "q = [] \<or> last q = slash"
  shows "\<exists>z. normalizeString (q @ n @ ''/'') up = z @ n \<and> (z = [] \<or> last z = slash)"
proof -
  have "\<exists>S. split_on slash (q @ n @ ''/'') = S @ [n, []]"
  proof (cases "q = []")
    case True
    have "split_on slash (n @ slash # []) = split_on slash n @ split_on slash []"
      by (rule split_on_append_sep)
    then show ?thesis
      using True assms(1) by (simp add: split_on_plain plain_name_def)
  next
    case False
    with assms(2) obtain q' where q: "q = q' @ [slash]"
      by (metis append_butlast_last_id)
    have "split_on slash (q' @ slash # (n @ slash # [])) =
            split_on slash q' @ split_on slash (n @ slash # [])"
      by (rule split_on_append_sep)
    also have "split_on slash (n @ slash # []) = split_on slash n @ split_on slash []"
      by (rule split_on_append_sep)
    finally show ?thesis
      using assms(1) by (simp add: q split_on_plain plain_name_def)
  qed
  then obtain S where S: "split_on slash (q @ n @ ''/'') = S @ [n, []]"
    by blast
  let ?st = "foldl (normalize_step up) [] S"
  have "foldl (normalize_step up) [] (S @ [n, []]) = n # ?st"
    using assms(1) by (simp add: plain_name_def)
  then have "normalizeString (q @ n @ ''/'') up = join ''/'' (rev ?st @ [n])"
    by (simp add: normalizeString_def S)
  then show ?thesis
    by (auto simp: join_snoc)
qed

lemma basename_path_resolve:
  assumes "plain_name n"
  shows "basename (path_resolve wd (as @ [n])) = n"
proof -
  from assms have n: "n \<noteq> []" "hd n \<noteq> slash" "slash \<notin> set n"
    by (auto simp: plain_name_def) (metis hd_in_set)
  obtain q b where
    q: "resolve_loop (rev as @ [wd]) (n @ ''/'') = (q @ n @ ''/'', b)" and
    l: "q = [] \<or> last q = slash"
    using resolve_loop_shape [of "rev as @ [wd]" "n @ ''/''"] by blast
  have r: "resolve_loop (rev (as @ [n]) @ [wd]) [] = (q @ n @ ''/'', b)"
    using n q by simp
  from normalize_plain_last [OF assms l] obtain z where
    z: "normalizeString (q @ n @ ''/'') (\<not> b) = z @ n" and zl: "z = [] \<or> last z = slash"
    by blast
  have "path_resolve wd (as @ [n]) = (if b then (slash # z) @ n else z @ n)"
    using n z by (cases b) (auto simp: path_resolve_def q Let_def)
  moreover have "basename ((slash # z) @ n) = n"
    using n zl by (intro basename_plain_tail) auto
  moreover have "basename (z @ n) = n"
    using n zl by (intro basename_plain_tail) auto
  ultimately show ?thesis
    by simp
qed

lemma basename_path_resolve_dir:
  assumes "plain_name n" "d = [] \<or> last d = slash"
  shows "basename (path_resolve wd (as @ [d @ n])) = n"
proof -
  from assms(1) have n: "n \<noteq> []" "slash \<notin> set n"
    by (auto simp: plain_name_def)
  have "\<exists>q b. resolve_loop (rev (as @ [d @ n]) @ [wd]) [] = (q @ n @ ''/'', b) \<and>
          (q = [] \<or> last q = slash)"
  proof (cases "hd (d @ n) = slash")
    case True
    then have "resolve_loop (rev (as @ [d @ n]) @ [wd]) [] = (d @ n @ ''/'', True)"
      using n by simp
    with assms(2) show ?thesis
      by blast
  next
    case False
    obtain q b where
      q: "resolve_loop (rev as @ [wd]) ((d @ n) @ ''/'') = (q @ (d @ n) @ ''/'', b)" and
      l: "q = [] \<or> last q = slash"
      using resolve_loop_shape [of "rev as @ [wd]" "(d @ n) @ ''/''"] by blast
    have "resolve_loop (rev (as @ [d @ n]) @ [wd]) [] = ((q @ d) @ n @ ''/'', b)"
      using n False q by simp
    moreover have "q @ d = [] \<or> last (q @ d) = slash"
      using l assms(2) by (cases "d = []") auto
    ultimately show ?thesis
      by blast
  qed
  then obtain q b where
    r: "resolve_loop (rev (as @ [d @ n]) @ [wd]) [] = (q @ n @ ''/'', b)" and
    l: "q = [] \<or> last q = slash"
    by blast
  from normalize_plain_last [OF assms(1) l] obtain z where
    z: "normalizeString (q @ n @ ''/'') (\<not> b) = z @ n" and zl: "z = [] \<or> last z = slash"
    by blast
  have "path_resolve wd (as @ [d @ n]) = (if b then (slash # z) @ n else z @ n)"
    using n z r by (cases b) (auto simp: path_resolve_def Let_def simp del: rev_append)
  moreover have "basename ((slash # z) @ n) = n"
    using n zl by (intro basename_plain_tail) auto
  moreover have "basename (z @ n) = n"
    using n zl by (intro basename_plain_tail) auto
  ultimately show ?thesis
    by simp
qed


section \<open>The file name of the legacy chunk\<close>

lemma replace_js_suffix_js: "replace_js_suffix (stem @ ''.js'') = stem @ ''.legacy.js''"
  by (simp add: replace_js_suffix_def suffix_def)

lemma insert_legacy_marker_js: "insert_legacy_marker (stem @ ''.js'') = stem @ ''.legacy.js''"
  by (simp add: insert_legacy_marker_def)

lemma plain_legacy_name: "slash \<notin> set stem \<Longrightarrow> plain_name (stem @ ''.legacy.js'')"
  by (auto simp: plain_name_def append_eq_Cons_conv)

lemma createLegacyChunk_fileName:
  "createLegacyChunk h (Some entry) viteConfig = Inr legacy \<Longrightarrow>
   fileName legacy = basename (legacyPath h viteConfig entry)"
  by (auto simp: createLegacyChunk_def split: sum.splits option.splits prod.splits)

lemma legacy_fileName_js:
  assumes "fileName entry = stem @ ''.js''" and "slash \<notin> set stem"
    and "createLegacyChunk h (Some entry) viteConfig = Inr legacy"
  shows "fileName legacy = stem @ ''.legacy.js''"
proof -
  have "legacyPath h viteConfig entry =
          path_resolve (cwd h)
            ([root viteConfig, outDir viteConfig, assetsDir viteConfig] @ [stem @ ''.legacy.js''])"
    by (simp add: legacyPath_def assms(1) replace_js_suffix_js)
  then have "basename (legacyPath h viteConfig entry) = stem @ ''.legacy.js''"
    by (simp only: basename_path_resolve [OF plain_legacy_name [OF assms(2)]])
  with createLegacyChunk_fileName [OF assms(3)] show ?thesis
    by simp
qed

text \<open>
  C4, amended. For an entry chunk whose file name ends in \<^verbatim>\<open>.js\<close> and has no directory
  part, the file name of the legacy chunk is the entry's name with \<^verbatim>\<open>.legacy\<close> inserted
  before that final \<^verbatim>\<open>.js\<close>.
\<close>

theorem legacy_name_for_js_entry:
  assumes "fileName entry = stem @ ''.js''" and "slash \<notin> set stem"
    and "createLegacyChunk h (Some entry) viteConfig = Inr legacy"
  shows "fileName legacy = stem @ ''.legacy.js'' \<and>
         fileName legacy = insert_legacy_marker (fileName entry)"
  using legacy_fileName_js [OF assms] assms(1) by (simp add: insert_legacy_marker_js)

theorem legacy_name_for_js_entry_witness:
  "fileName (demo_chunk ''main.a1b2.js'') = ''main.a1b2'' @ ''.js'' \<and>
   createLegacyChunk demo_host (Some (demo_chunk ''main.a1b2.js'')) demo_config =
     Inr (demo_legacy ''main.a1b2.legacy.js'') \<and>
   fileName (demo_legacy ''main.a1b2.legacy.js'') = ''main.a1b2.legacy.js''"
proof -
  have a: "fileName (demo_chunk ''main.a1b2.js'') = ''main.a1b2'' @ ''.js''"
    by (simp add: demo_chunk_def)
  have b: "slash \<notin> set ''main.a1b2''"
    by simp
  have c: "createLegacyChunk demo_host (Some (demo_chunk ''main.a1b2.js'')) demo_config =
             Inr (demo_legacy ''main.a1b2.legacy.js'')"
    by code_simp
  from legacy_name_for_js_entry [OF a b c] a c show ?thesis
    by simp
qed

text \<open>
  C4 as stated fails for an entry chunk named \<^verbatim>\<open>main.mjs\<close>: the pattern \<^verbatim>\<open>/\.js$/\<close> does
  not match, and the legacy chunk is named \<^verbatim>\<open>main.mjs\<close>, not \<^verbatim>\<open>main.legacy.mjs\<close>.
\<close>

theorem legacy_name_mjs_counterexample:
  "createLegacyChunk demo_host (Some (demo_chunk ''main.mjs'')) demo_config =
     Inr (demo_legacy ''main.mjs'') \<and>
   insert_legacy_marker (fileName (demo_chunk ''main.mjs'')) = ''main.legacy.mjs'' \<and>
   fileName (demo_legacy ''main.mjs'') \<noteq> insert_legacy_marker (fileName (demo_chunk ''main.mjs''))"
  by code_simp

lemma split_directory:
  "\<exists>d t. stem = d @ t \<and> slash \<notin> set t \<and> (d = [] \<or> last d = slash)"
proof -
  let ?t = "rev (takeWhile (\<lambda>c. c \<noteq> slash) (rev stem))"
  let ?d = "rev (dropWhile (\<lambda>c. c \<noteq> slash) (rev stem))"
  have "rev stem = takeWhile (\<lambda>c. c \<noteq> slash) (rev stem) @ dropWhile (\<lambda>c. c \<noteq> slash) (rev stem)"
    by simp
  then have "rev (rev stem) = ?d @ ?t"
    by (metis rev_append)
  then have 1: "stem = ?d @ ?t"
    by simp
  have 2: "slash \<notin> set ?t"
    using set_takeWhileD by fastforce
  have 3: "?d = [] \<or> last ?d = slash"
  proof (cases "dropWhile (\<lambda>c. c \<noteq> slash) (rev stem)")
    case Nil
    then show ?thesis by simp
  next
    case (Cons c cs)
    then have "c = slash"
      using hd_dropWhile [of "\<lambda>c. c \<noteq> slash" "rev stem"] by auto
    with Cons show ?thesis
      by simp
  qed
  from 1 2 3 show ?thesis
    by blast
qed

lemma legacy_fileName_general:
  assumes "fileName entry = stem @ ''.js''"
    and "createLegacyChunk h (Some entry) viteConfig = Inr legacy"
  shows "fileName legacy = basename (stem @ ''.legacy.js'') \<and> fileName legacy \<noteq> fileName entry"
proof -
  obtain d t where s: "stem = d @ t" and t: "slash \<notin> set t" and d: "d = [] \<or> last d = slash"
    using split_directory by blast
  have pl: "plain_name (t @ ''.legacy.js'')"
    by (rule plain_legacy_name [OF t])
  have "legacyPath h viteConfig entry =
          path_resolve (cwd h)
            ([root viteConfig, outDir viteConfig, assetsDir viteConfig] @ [d @ t @ ''.legacy.js''])"
    by (simp only: legacyPath_def assms(1) replace_js_suffix_js) (simp add: s)
  then have "basename (legacyPath h viteConfig entry) = t @ ''.legacy.js''"
    by (simp only: basename_path_resolve_dir [OF pl d])
  with createLegacyChunk_fileName [OF assms(2)] have n: "fileName legacy = t @ ''.legacy.js''"
    by simp
  have "basename (d @ t @ ''.legacy.js'') = t @ ''.legacy.js''"
    using pl d by (intro basename_plain_tail) (auto simp: plain_name_def)
  then have 1: "fileName legacy = basename (stem @ ''.legacy.js'')"
    by (simp add: n s)
  have 2: "fileName legacy \<noteq> fileName entry"
  proof (cases "d = []")
    case True
    then have "length (fileName legacy) \<noteq> length (fileName entry)"
      by (simp add: n assms(1) s)
    then show ?thesis
      by auto
  next
    case False
    with d have "slash \<in> set d"
      by (metis last_in_set)
    then have "slash \<in> set (fileName entry)"
      by (simp add: assms(1) s)
    moreover have "slash \<notin> set (fileName legacy)"
      using t by (simp add: n)
    ultimately show ?thesis
      by metis
  qed
  from 1 2 show ?thesis
    by blast
qed

text \<open>
  C5, amended. For an entry chunk whose file name ends in \<^verbatim>\<open>.js\<close>, the file name of the
  legacy chunk differs from the entry's; it is the base name of the entry's name with
  that \<^verbatim>\<open>.js\<close> replaced by \<^verbatim>\<open>.legacy.js\<close>, and so differs from the name of every element of
  the bundle that does not have exactly this name.
\<close>

theorem legacy_name_differs_from_entry:
  assumes "fileName entry = stem @ ''.js''"
    and "createLegacyChunk h (Some entry) viteConfig = Inr legacy"
  shows "fileName legacy \<noteq> fileName entry \<and>
         fileName legacy = basename (stem @ ''.legacy.js'') \<and>
         (\<forall>a \<in> set bundle. fileName a \<noteq> basename (stem @ ''.legacy.js'') \<longrightarrow>
            fileName a \<noteq> fileName legacy)"
  using legacy_fileName_general [OF assms] by auto

theorem legacy_name_differs_from_entry_witness:
  "fileName (demo_chunk ''assets/main.a1b2.js'') = ''assets/main.a1b2'' @ ''.js'' \<and>
   createLegacyChunk demo_host (Some (demo_chunk ''assets/main.a1b2.js'')) demo_config =
     Inr (demo_legacy ''main.a1b2.legacy.js'') \<and>
   fileName (demo_legacy ''main.a1b2.legacy.js'') \<noteq> fileName (demo_chunk ''assets/main.a1b2.js'') \<and>
   fileName (demo_chunk ''main.a1b2.legacy.css'') \<noteq> fileName (demo_legacy ''main.a1b2.legacy.js'') \<and>
   fileName (demo_chunk ''vendor.legacy.js'') \<noteq> fileName (demo_legacy ''main.a1b2.legacy.js'')"
proof -
  let ?others = "[demo_chunk ''main.a1b2.legacy.css'', demo_chunk ''vendor.legacy.js'']"
  have a: "fileName (demo_chunk ''assets/main.a1b2.js'') = ''assets/main.a1b2'' @ ''.js''"
    by (simp add: demo_chunk_def)
  have c: "createLegacyChunk demo_host (Some (demo_chunk ''assets/main.a1b2.js'')) demo_config =
             Inr (demo_legacy ''main.a1b2.legacy.js'')"
    by code_simp
  have d: "fileName (demo_chunk ''main.a1b2.legacy.css'') \<noteq>
             basename (''assets/main.a1b2'' @ ''.legacy.js'')"
    "fileName (demo_chunk ''vendor.legacy.js'') \<noteq> basename (''assets/main.a1b2'' @ ''.legacy.js'')"
    by code_simp+
  have m: "demo_chunk ''main.a1b2.legacy.css'' \<in> set ?others"
    "demo_chunk ''vendor.legacy.js'' \<in> set ?others"
    by simp_all
  from legacy_name_differs_from_entry [OF a c, of ?others] a c d m
  show ?thesis
    by blast
qed

text \<open>
  C5 as stated fails: in a bundle with the entry chunk \<^verbatim>\<open>main.js\<close> and a chunk
  \<^verbatim>\<open>main.legacy.js\<close>, the legacy chunk takes the name of the second; and for the entry
  chunk \<^verbatim>\<open>app.mjs\<close> the legacy chunk takes the name of the entry chunk itself.
\<close>

theorem legacy_name_collision_counterexample:
  "createLegacyChunk demo_host
     (find (\<lambda>a. type a = chunk \<and> isEntry a)
        [demo_chunk ''main.js'', demo_chunk ''main.legacy.js''\<lparr>isEntry := False\<rparr>])
     demo_config = Inr (demo_legacy ''main.legacy.js'') \<and>
   fileName (demo_legacy ''main.legacy.js'') =
     fileName (demo_chunk ''main.legacy.js''\<lparr>isEntry := False\<rparr>) \<and>
   createLegacyChunk demo_host (Some (demo_chunk ''app.mjs'')) demo_config =
     Inr (demo_legacy ''app.mjs'') \<and>
   fileName (demo_legacy ''app.mjs'') = fileName (demo_chunk ''app.mjs'')"
  by code_simp

section \<open>Properties of the loader text\<close>

lemma interpolate_loader_raw:
  "interpolate loader_raw [moduleTest, p, m, l] = join [newline] (loader_lines p m l)"
  by (simp add: loader_raw_def moduleTest_def loader_lines_def)

lemma split_on_join:
  "ls \<noteq> [] \<Longrightarrow> \<forall>x \<in> set ls. d \<notin> set x \<Longrightarrow> split_on d (join [d] ls) = ls"
proof (induction "[d]" ls rule: join.induct)
  case 1
  then show ?case by simp
next
  case (2 x)
  then show ?case by (simp add: split_on_plain)
next
  case (3 x y ys)
  then show ?case
    by (simp add: split_on_append_sep split_on_plain)
qed

lemma split_loader_lines:
  assumes "newline \<notin> set p" "newline \<notin> set m" "newline \<notin> set l"
  shows "split_on newline (join [newline] (loader_lines p m l)) = loader_lines p m l"
  by (rule split_on_join) (use assms in \<open>simp_all add: loader_lines_def\<close>)

lemma mindent_loader_lines:
  "foldl mindent_step None (loader_lines p m l) = Some 4"
  by (simp add: loader_lines_def indent_of_def is_space_def)

lemma strip_loader_lines:
  "join [newline] (map (strip_line 4) (loader_lines p m l)) =
   newline # loader_text p m l @ [newline]"
  by (simp add: loader_lines_def strip_line_def loader_text_def)

lemma trim_between_newlines:
  assumes "s \<noteq> []" "\<not> is_space (hd s)" "\<not> is_space (last s)"
  shows "trim (newline # s @ [newline]) = s"
proof -
  have n: "is_space newline"
    by (simp add: is_space_def)
  from assms(1) obtain a s' where s: "s = a # s'"
    by (cases s) auto
  from assms(1) obtain s'' z where z: "s = s'' @ [z]"
    by (cases s rule: rev_cases) auto
  have "dropWhile is_space (newline # s @ [newline]) = s @ [newline]"
    using n assms(2) by (simp add: s)
  moreover have "dropWhile is_space (rev (s @ [newline])) = rev s"
    using n assms(3) by (simp add: z)
  ultimately show ?thesis
    by (simp add: trim_def)
qed

lemma trim_loader_text: "trim (newline # loader_text p m l @ [newline]) = loader_text p m l"
  by (rule trim_between_newlines) (simp_all add: loader_text_def is_space_def)

lemma unescape_newlines_Cons:
  "c \<noteq> backslash \<Longrightarrow> unescape_newlines (c # cs) = c # unescape_newlines cs"
  by (cases cs) auto

lemma unescape_newlines_value:
  "escaped_newline_free v \<Longrightarrow> c \<noteq> CHR ''n'' \<Longrightarrow>
   unescape_newlines (v @ c # rest) = v @ unescape_newlines (c # rest)"
  by (induction v rule: escaped_newline_free.induct) auto

lemma unescape_loader_text:
  assumes "escaped_newline_free p" "escaped_newline_free m" "escaped_newline_free l"
  shows "unescape_newlines (loader_text p m l) = loader_text p m l"
  using assms by (simp add: loader_text_def unescape_newlines_Cons unescape_newlines_value)

lemma dedent_loader_raw:
  assumes "inline_value p" "inline_value m" "inline_value l"
  shows "dedent loader_raw [moduleTest, p, m, l] = loader_text p m l"
  using assms
  by (simp add: dedent_def Let_def inline_value_def interpolate_loader_raw split_loader_lines
        mindent_loader_lines strip_loader_lines trim_loader_text unescape_loader_text)

lemma registry_inline: "map_of registry target = Some p \<Longrightarrow> inline_value p"
  by (auto simp: registry_def inline_value_def split: if_splits)

lemma object_prototype_inline: "map_of object_prototype target = Some p \<Longrightarrow> inline_value p"
  by (auto simp: object_prototype_def inline_value_def split: if_splits)

lemma inline_undefined: "inline_value ''undefined''"
  by (simp add: inline_value_def)

lemma inline_probe: "inline_value (interpolated (syntaxTests target))"
  by (simp add: interpolated_def syntaxTests_def registry_inline object_prototype_inline
        inline_undefined split: option.splits)

text \<open>
  C10, amended. For URLs without a line feed and without a backslash followed by
  \<^verbatim>\<open>n\<close>, the text that the factory returns is the template with the probe of the target
  and the two URLs written into it as they are, each between single quotes and without
  any escaping; the same holds for the template with any such probe. A single quote in
  a URL is therefore found as it is between the quotes of the literal.
\<close>

theorem loader_text_is_verbatim:
  assumes "inline_value modern" and "inline_value legacy"
  shows "createScriptFactory target modern legacy =
           loader_text (interpolated (syntaxTests target)) modern legacy \<and>
         (inline_value probe \<longrightarrow>
            dedent loader_raw [moduleTest, probe, modern, legacy] =
              loader_text probe modern legacy) \<and>
         sublist (''script.src = '' @ [squote] @ modern @ [squote])
           (createScriptFactory target modern legacy) \<and>
         sublist (''script.src = '' @ [squote] @ legacy @ [squote])
           (createScriptFactory target modern legacy)"
proof -
  have c: "createScriptFactory target modern legacy =
             loader_text (interpolated (syntaxTests target)) modern legacy"
    using assms by (simp add: createScriptFactory_def dedent_loader_raw inline_probe)
  have m: "sublist (''script.src = '' @ [squote] @ modern @ [squote])
             (loader_text p modern legacy)" for p
    unfolding loader_text_def sublist_def
    by (rule exI [of _ "''<script>\<newline>  (function() {\<newline>    var script = document.createElement('script')\<newline>    try {\<newline>      script.noModule.$\<newline>      eval('' @ [squote] @ p @ squote # '')\<newline>      script.type = 'module'\<newline>      ''"])
       auto
  have l: "sublist (''script.src = '' @ [squote] @ legacy @ [squote])
             (loader_text p modern legacy)" for p
    unfolding loader_text_def sublist_def
    by (rule exI [of _ "''<script>\<newline>  (function() {\<newline>    var script = document.createElement('script')\<newline>    try {\<newline>      script.noModule.$\<newline>      eval('' @ [squote] @ p @ squote # '')\<newline>      script.type = 'module'\<newline>      script.src = '' @ [squote] @ modern @ squote # ''\<newline>    } catch(e) {\<newline>      ''"])
       auto
  show ?thesis
    using assms c m l by (simp add: dedent_loader_raw)
qed

theorem loader_text_is_verbatim_witness:
  "inline_value (''/a'' @ [squote] @ ''b.js'') \<and>
   inline_value ''/assets/main.legacy.js'' \<and>
   createScriptFactory ''es2020'' (''/a'' @ [squote] @ ''b.js'') ''/assets/main.legacy.js'' =
     loader_text (interpolated (syntaxTests ''es2020'')) (''/a'' @ [squote] @ ''b.js'')
       ''/assets/main.legacy.js'' \<and>
   sublist (''script.src = '' @ [squote] @ (''/a'' @ [squote] @ ''b.js'') @ [squote])
     (createScriptFactory ''es2020'' (''/a'' @ [squote] @ ''b.js'') ''/assets/main.legacy.js'')"
proof -
  have a: "inline_value (''/a'' @ [squote] @ ''b.js'')"
    by (simp add: inline_value_def)
  have b: "inline_value ''/assets/main.legacy.js''"
    by (simp add: inline_value_def)
  from loader_text_is_verbatim [OF a b, of "''es2020''" "''0?.$''"] a b
  show ?thesis
    by blast
qed

text \<open>
  C10 as stated fails for a URL with a line feed followed by a space, which changes the
  indentation that \<^verbatim>\<open>dedent\<close> removes from every line, and for a URL with a backslash
  followed by \<^verbatim>\<open>n\<close>, which \<^verbatim>\<open>dedent\<close> turns into a line feed.
\<close>

theorem loader_text_multiline_counterexample:
  "createScriptFactory ''es2019'' ''x\<newline> y'' ''/l.js'' \<noteq>
     loader_text (interpolated (syntaxTests ''es2019'')) ''x\<newline> y'' ''/l.js'' \<and>
   createScriptFactory ''es2019'' [CHR ''x'', backslash, CHR ''n''] ''/l.js'' \<noteq>
     loader_text (interpolated (syntaxTests ''es2019'')) [CHR ''x'', backslash, CHR ''n''] ''/l.js''"
  by code_simp

section \<open>Properties of the HTML override\<close>

lemma match_tag_at_tag:
  assumes "m \<noteq> []" "dquote \<notin> set m"
  shows "match_tag (tag_open @ m @ tag_close @ post) = Some (m, post)"
proof -
  have q: "\<forall>c \<in> set m. c \<noteq> dquote"
    using assms(2) by auto
  have t: "takeWhile (\<lambda>c. c \<noteq> dquote) (m @ tag_close @ post) = m"
    using q by (simp add: tag_close_def)
  have d: "dropWhile (\<lambda>c. c \<noteq> dquote) (m @ tag_close @ post) = tag_close @ post"
    using q by (simp add: tag_close_def)
  show ?thesis
    using assms(1) by (simp add: match_tag_def t d)
qed

lemma match_tag_SomeD:
  assumes "match_tag s = Some (m, rest)"
  shows "s = tag_open @ m @ tag_close @ rest \<and> m \<noteq> [] \<and> dquote \<notin> set m"
proof -
  let ?r = "drop (length tag_open) s"
  let ?m = "takeWhile (\<lambda>c. c \<noteq> dquote) ?r"
  let ?r' = "dropWhile (\<lambda>c. c \<noteq> dquote) ?r"
  from assms have p: "prefix tag_open s"
    by (simp add: match_tag_def split: if_splits)
  with assms have c: "?m \<noteq> []" "prefix tag_close ?r'"
    and e: "m = ?m" "rest = drop (length tag_close) ?r'"
    by (auto simp: match_tag_def Let_def split: if_splits)
  from p have "s = tag_open @ ?r"
    by (auto simp: prefix_def)
  moreover have "?r = ?m @ ?r'"
    by simp
  moreover from c(2) have "?r' = tag_close @ rest"
    unfolding e by (auto simp: prefix_def)
  ultimately have "s = tag_open @ m @ tag_close @ rest"
    unfolding e by metis
  moreover have "dquote \<notin> set m"
    unfolding e using set_takeWhileD by fastforce
  ultimately show ?thesis
    using c(1) e(1) by simp
qed

lemma match_tag_extend:
  assumes "match_tag s = Some (m, rest)"
  shows "match_tag (s @ x) = Some (m, rest @ x)"
proof -
  from match_tag_SomeD [OF assms] have
    s: "s = tag_open @ m @ tag_close @ rest" and m: "m \<noteq> []" "dquote \<notin> set m"
    by auto
  have "s @ x = tag_open @ m @ tag_close @ (rest @ x)"
    by (subst s) simp
  then show ?thesis
    using match_tag_at_tag [OF m] by simp
qed

lemma tag_open_split:
  assumes "tag_open = r @ us" "r \<noteq> []" "us \<noteq> []"
  shows "hd us \<noteq> CHR ''<''"
proof -
  have 1: "tag_open = CHR ''<'' # tl tag_open" and 2: "CHR ''<'' \<notin> set (tl tag_open)"
    by (simp_all add: tag_open_def)
  from assms(1) 1 have "CHR ''<'' # tl tag_open = r @ us"
    by simp
  with assms(2) obtain r' where "r = CHR ''<'' # r'" "tl tag_open = r' @ us"
    by (cases r) auto
  with 2 have "CHR ''<'' \<notin> set us"
    by auto
  with assms(3) show ?thesis
    by (cases us) auto
qed

lemma tag_close_split:
  assumes "tag_close = r @ us" "r \<noteq> []" "us \<noteq> []"
    and "prefix us (CHR ''<'' # CHR ''s'' # x)"
  shows False
proof -
  from assms(3,4) obtain us' where us: "us = CHR ''<'' # us'"
    by (cases us) auto
  have "tag_close = r @ CHR ''<'' # us'"
    using assms(1) us by simp
  then have "us' = ''/script>''"
    by (auto simp: tag_close_def append_eq_Cons_conv Cons_eq_append_conv)
  with assms(4) us show False
    by simp
qed

lemma prefix_tag_open_straddle:
  assumes "pre \<noteq> []" "\<not> prefix tag_open pre"
  shows "\<not> prefix tag_open (pre @ tag_open @ x)"
proof
  assume "prefix tag_open (pre @ tag_open @ x)"
  with assms(2) obtain us where us: "tag_open = pre @ us" "prefix us (tag_open @ x)"
    by (auto simp: prefix_append)
  with assms(2) have n: "us \<noteq> []"
    by auto
  from us(2) n have "hd us = CHR ''<''"
    by (cases us) (auto simp: tag_open_def)
  with tag_open_split [OF us(1) assms(1) n] show False
    by simp
qed

lemma prefix_tag_close_straddle:
  assumes "r \<noteq> []" "\<not> prefix tag_close r"
  shows "\<not> prefix tag_close (r @ tag_open @ x)"
proof
  assume "prefix tag_close (r @ tag_open @ x)"
  with assms(2) obtain us where us: "tag_close = r @ us" "prefix us (tag_open @ x)"
    by (auto simp: prefix_append)
  with assms(2) have n: "us \<noteq> []"
    by auto
  from us(2) have "prefix us (CHR ''<'' # CHR ''s'' # (drop 2 tag_open @ x))"
    by (simp add: tag_open_def)
  from tag_close_split [OF us(1) assms(1) n this] show False .
qed

lemma match_tag_straddle:
  assumes "pre \<noteq> []" "match_tag pre = None"
  shows "match_tag (pre @ tag_open @ x) = None"
proof (cases "prefix tag_open pre")
  case False
  from prefix_tag_open_straddle [OF assms(1) False] show ?thesis
    by (simp add: match_tag_def)
next
  case True
  then obtain r where pre: "pre = tag_open @ r"
    by (auto simp: prefix_def)
  let ?P = "\<lambda>c. c \<noteq> dquote"
  have l: "length tag_open = 27"
    by (simp add: tag_open_def)
  show ?thesis
  proof (cases "dquote \<in> set r")
    case q: True
    then have t: "takeWhile ?P (r @ tag_open @ x) = takeWhile ?P r"
      by (intro takeWhile_append1) auto
    from q have d: "dropWhile ?P (r @ tag_open @ x) = dropWhile ?P r @ tag_open @ x"
      by (intro dropWhile_append1) auto
    from q have ne: "dropWhile ?P r \<noteq> []"
      by (auto simp: dropWhile_eq_Nil_conv)
    from assms(2) have "takeWhile ?P r = [] \<or> \<not> prefix tag_close (dropWhile ?P r)"
      by (auto simp: match_tag_def pre Let_def split: if_splits)
    then have "takeWhile ?P r = [] \<or> \<not> prefix tag_close (dropWhile ?P r @ tag_open @ x)"
      using prefix_tag_close_straddle [OF ne] by blast
    then show ?thesis
      by (auto simp: match_tag_def pre Let_def t d)
  next
    case q: False
    then have a: "\<forall>c \<in> set r. ?P c"
      by auto
    have d: "dropWhile ?P (r @ tag_open @ x) = dropWhile ?P (tag_open @ x)"
      using a by (simp add: dropWhile_append2)
    have "\<not> prefix tag_close (dropWhile ?P (tag_open @ x))"
      by (simp add: tag_open_def tag_close_def)
    then show ?thesis
      by (simp add: match_tag_def pre Let_def d)
  qed
qed

lemma replace_tags_match:
  assumes "match_tag s = Some (m, rest)"
  shows "replace_tags f s = f (tag_open @ m @ tag_close) m @ replace_tags f rest"
proof (cases s)
  case Nil
  with assms show ?thesis
    by (simp add: match_tag_def tag_open_def)
next
  case (Cons c cs)
  with assms show ?thesis
    by simp
qed

lemma replace_tags_around_tag:
  assumes "m \<noteq> []" "dquote \<notin> set m"
  shows "replace_tags f (pre @ module_script_tag m @ post) =
         replace_tags f pre @ f (module_script_tag m) m @ replace_tags f post"
proof (induction f pre rule: replace_tags.induct)
  case (1 f)
  have "match_tag (tag_open @ m @ tag_close @ post) = Some (m, post)"
    by (rule match_tag_at_tag [OF assms])
  from replace_tags_match [OF this] show ?case
    by (simp add: module_script_tag_def)
next
  case (2 f c cs)
  let ?T = "module_script_tag m @ post"
  show ?case
  proof (cases "match_tag (c # cs)")
    case None
    have "match_tag ((c # cs) @ tag_open @ (m @ tag_close @ post)) = None"
      by (rule match_tag_straddle [OF _ None]) simp
    then have "match_tag (c # cs @ ?T) = None"
      by (simp add: module_script_tag_def)
    then show ?thesis
      using None 2(1) [OF None] by simp
  next
    case (Some a)
    obtain m' rest where a: "a = (m', rest)"
      by (cases a)
    from match_tag_extend [of "c # cs" m' rest ?T] Some a
    have "match_tag (c # cs @ ?T) = Some (m', rest @ ?T)"
      by simp
    then show ?thesis
      using Some a 2(2) [OF Some a [symmetric]] by simp
  qed
qed

lemma replace_tags_unchanged:
  assumes "\<forall>ps m ss. s = ps @ module_script_tag m @ ss \<and> m \<noteq> [] \<and> dquote \<notin> set m \<longrightarrow>
             f (module_script_tag m) m = module_script_tag m"
  shows "replace_tags f s = s"
  using assms
proof (induction f s rule: replace_tags.induct)
  case (1 f)
  show ?case by simp
next
  case (2 f c cs)
  show ?case
  proof (cases "match_tag (c # cs)")
    case None
    have "replace_tags f cs = cs"
    proof (rule 2(1) [OF None], intro allI impI)
      fix ps m ss
      assume "cs = ps @ module_script_tag m @ ss \<and> m \<noteq> [] \<and> dquote \<notin> set m"
      then have "c # cs = (c # ps) @ module_script_tag m @ ss \<and> m \<noteq> [] \<and> dquote \<notin> set m"
        by simp
      with 2(3) show "f (module_script_tag m) m = module_script_tag m"
        by blast
    qed
    with None show ?thesis
      by simp
  next
    case (Some a)
    obtain m' rest where a: "a = (m', rest)"
      by (cases a)
    from match_tag_SomeD [of "c # cs" m' rest] Some a have
      s: "c # cs = tag_open @ m' @ tag_close @ rest" and m': "m' \<noteq> []" "dquote \<notin> set m'"
      by auto
    from s have s': "c # cs = [] @ module_script_tag m' @ rest"
      by (simp add: module_script_tag_def)
    with 2(3) m' have f: "f (module_script_tag m') m' = module_script_tag m'"
      by blast
    have "replace_tags f rest = rest"
    proof (rule 2(2) [OF Some a [symmetric]], intro allI impI)
      fix ps m ss
      assume "rest = ps @ module_script_tag m @ ss \<and> m \<noteq> [] \<and> dquote \<notin> set m"
      then have "c # cs = (module_script_tag m' @ ps) @ module_script_tag m @ ss \<and>
                 m \<noteq> [] \<and> dquote \<notin> set m"
        using s' by simp
      with 2(3) show "f (module_script_tag m) m = module_script_tag m"
        by blast
    qed
    then have "replace_tags f (c # cs) = module_script_tag m' @ rest"
      using replace_tags_match [of "c # cs" m' rest f] Some a f
      by (simp add: module_script_tag_def)
    with s' show ?thesis
      by simp
  qed
qed

lemma no_tag_without_parts:
  assumes "\<not> sublist tag_open s \<or> \<not> sublist tag_close s"
  shows "s \<noteq> ps @ module_script_tag m @ ss"
proof
  assume "s = ps @ module_script_tag m @ ss"
  then have "s = ps @ tag_open @ (m @ tag_close @ ss)" "s = (ps @ tag_open @ m) @ tag_close @ ss"
    by (simp_all add: module_script_tag_def)
  then have "sublist tag_open s \<and> sublist tag_close s"
    unfolding sublist_def by blast
  with assms show False
    by blast
qed

text \<open>
  C2, amended. Wherever a module script tag of the exact text
  \<^verbatim>\<open><script type="module" src="..."></script>\<close>, with a source that is not empty and has
  no double quote, stands in the HTML given to the setter, the stored
  HTML has in its place the generated loader if the base name of the tag's source is the
  file name of the entry chunk, and the tag itself if it is not; the text before the tag
  and the text after it are rewritten by the same rule, each on its own. A text without
  any tag of that exact text is stored as it is.
\<close>

theorem html_override_rewrites_entry_tags_only:
  assumes "accessors b = Some sp" and "moduleId \<noteq> []" and "dquote \<notin> set moduleId"
  shows "html (set_html h viteConfig b (pre @ module_script_tag moduleId @ post)) =
           Some (html_override h viteConfig sp pre @
                 (if basename moduleId = fileName (mainChunk sp)
                  then getLoader viteConfig moduleId
                         (path_resolve (cwd h) [moduleId, ''..'', fileName (legacyAssets sp ! 0)])
                  else module_script_tag moduleId) @
                 html_override h viteConfig sp post) \<and>
         ((\<forall>ps m ss. m \<noteq> [] \<and> dquote \<notin> set m \<longrightarrow> content \<noteq> ps @ module_script_tag m @ ss) \<longrightarrow>
            html (set_html h viteConfig b content) = Some content)"
proof -
  have 1: "html_override h viteConfig sp (pre @ module_script_tag moduleId @ post) =
           html_override h viteConfig sp pre @
           rewrite_tag h viteConfig sp (module_script_tag moduleId) moduleId @
           html_override h viteConfig sp post"
    unfolding html_override_def by (rule replace_tags_around_tag [OF assms(2,3)])
  have 2: "html_override h viteConfig sp content = content"
    if "\<forall>ps m ss. m \<noteq> [] \<and> dquote \<notin> set m \<longrightarrow> content \<noteq> ps @ module_script_tag m @ ss"
    unfolding html_override_def using that by (intro replace_tags_unchanged) blast
  show ?thesis
    using 1 2 by (auto simp: set_html_def assms(1) rewrite_tag_def)
qed

theorem html_override_rewrites_entry_tags_only_witness:
  "html (set_html demo_host demo_config demo_spliced
           (''<body>'' @ module_script_tag ''/assets/main.a1b2.js'' @
            module_script_tag ''/assets/vendor.js'')) =
     Some (''<body>'' @
           getLoader demo_config ''/assets/main.a1b2.js'' ''/assets/main.a1b2.legacy.js'' @
           module_script_tag ''/assets/vendor.js'') \<and>
   html (set_html demo_host demo_config demo_spliced ''<script>go()</script>'') =
     Some ''<script>go()</script>''"
proof -
  let ?sp = "\<lparr>mainChunk = demo_chunk ''main.a1b2.js'',
               legacyAssets = [demo_legacy ''main.a1b2.legacy.js'']\<rparr>"
  have a: "accessors demo_spliced = Some ?sp"
    by (simp add: demo_spliced_def)
  have m: "''/assets/main.a1b2.js'' \<noteq> []" "dquote \<notin> set ''/assets/main.a1b2.js''"
    by simp_all
  have b: "basename ''/assets/main.a1b2.js'' = fileName (mainChunk ?sp)"
    by code_simp
  have r: "path_resolve (cwd demo_host)
             [''/assets/main.a1b2.js'', ''..'', fileName (legacyAssets ?sp ! 0)] =
           ''/assets/main.a1b2.legacy.js''"
    by code_simp
  have p: "html_override demo_host demo_config ?sp ''<body>'' = ''<body>''"
    by code_simp
  have q: "html_override demo_host demo_config ?sp (module_script_tag ''/assets/vendor.js'') =
           module_script_tag ''/assets/vendor.js''"
    by code_simp
  have "\<not> sublist tag_open ''<script>go()</script>''"
    by code_simp
  then have n: "\<forall>ps m ss. m \<noteq> [] \<and> dquote \<notin> set m \<longrightarrow>
                  ''<script>go()</script>'' \<noteq> ps @ module_script_tag m @ ss"
    using no_tag_without_parts [of "''<script>go()</script>''"] by blast
  from html_override_rewrites_entry_tags_only
         [OF a m, of demo_host demo_config "''<body>''" "module_script_tag ''/assets/vendor.js''"
            "''<script>go()</script>''"] n
  show ?thesis
    unfolding b r p q by simp
qed

text \<open>
  C2 as stated fails for a module script tag in another shape: a tag with the attribute
  \<^verbatim>\<open>crossorigin\<close> between type and source, whose source has the entry chunk's file name
  as base name, is stored as it is and not replaced by the loader.
\<close>

theorem html_override_other_shape_counterexample:
  \<open>html (set_html demo_host demo_config demo_spliced tag_crossorigin) = Some tag_crossorigin \<and>
   sublist ''<script type="module" '' tag_crossorigin \<and>
   sublist ''src="/assets/main.a1b2.js"'' tag_crossorigin \<and>
   basename ''/assets/main.a1b2.js'' = fileName (mainChunk (the (accessors demo_spliced)))\<close>
  by code_simp



section \<open>Properties of the loader at run time\<close>























end
